theory Spec2Isabelle
  imports Complex_Main "HOL-Library.AList"
begin

section \<open>The PTA/CFR simulator core of app.py\<close>

text \<open>
  The four functions of app.py that form the simulation core are embedded here:
  \<^verbatim>\<open>calculate_ft_mic\<close>, \<^verbatim>\<open>calculate_lognormal_params\<close>, \<^verbatim>\<open>monte_carlo_simulation\<close>
  and \<^verbatim>\<open>calculate_cfr\<close>.

  Numbers. A Python number is an int (unbounded) or a float (IEEE binary64). A float is
  a finite value, an infinity or NaN. The range of the floats is modelled exactly: the
  result of an operation on floats overflows to an infinity when its magnitude reaches
  \<open>2 ^ 1024 - 2 ^ 970\<close> and underflows to zero when its magnitude is at most \<open>1 / 2 ^ 1075\<close>,
  the two points where round-to-nearest leaves the finite non-zero floats. What is not
  modelled is the rounding of a result inside that range to 53 significant bits (such a
  result is kept as the exact real) and the sign of zero. This is the arithmetic of
  \<^verbatim>\<open>calculate_ft_mic\<close>, \<^verbatim>\<open>calculate_lognormal_params\<close> and the patient loop. The
  numbers handed to \<^verbatim>\<open>monte_carlo_simulation\<close> and to \<^verbatim>\<open>calculate_cfr\<close> are finite, and
  the weighted sums of \<^verbatim>\<open>calculate_cfr\<close> are taken in the reals: neither their
  rounding nor an overflow of a sum of percentages times weights is modelled. The
  patient count is an \<open>int\<close>.

  Exceptions. Every operation of the source that can raise is a function into
  \<open>error + 'a\<close>, with \<open>Inl\<close> the exception: true division by zero raises
  ZeroDivisionError, \<^verbatim>\<open>math.log\<close> of a non-positive number and \<^verbatim>\<open>math.sqrt\<close> of a
  negative number raise ValueError, \<^verbatim>\<open>**\<close> on floats, true division of ints and the
  conversion of an int to a float raise OverflowError when the result is beyond the
  floats, comparing a \<^verbatim>\<open>str\<close> with a number raises TypeError, and subscripting a dict
  with a missing key raises KeyError. Multiplication, addition and division of floats
  do not raise on overflow: they return an infinity, or NaN for \<open>0 * inf\<close>,
  \<open>inf / inf\<close> and \<open>inf - inf\<close>. The source is Python 3 (it uses f-strings), where an
  ordering comparison between \<^verbatim>\<open>str\<close> and a number is an error and \<^verbatim>\<open>/\<close> is true
  division.
\<close>

subsection \<open>Python numbers\<close>

datatype error = ValueError | ZeroDivisionError | OverflowError | TypeError | KeyError

datatype pyfloat = Fin real | PInf | NInf | NaN

datatype pynum = PInt int | PFloat pyfloat

text \<open>\<^verbatim>\<open>calculate_ft_mic\<close> returns either a number or a string.\<close>

datatype pyval = Num pynum | Str string

definition float_overflow :: real where
  "float_overflow = 2 ^ 1024 - 2 ^ 970"

definition float_underflow :: real where
  "float_underflow = 1 / 2 ^ 1075"

text \<open>Underflow of a real result to zero, and its rounding into the floats.\<close>

definition flush :: "real \<Rightarrow> real" where
  "flush x = (if \<bar>x\<bar> \<le> float_underflow then 0 else x)"

definition fl :: "real \<Rightarrow> pyfloat" where
  "fl x = (if float_overflow \<le> \<bar>x\<bar> then (if 0 < x then PInf else NInf) else Fin (flush x))"

text \<open>The sign of a float, and the infinity of a sign; a product of signs 0 is NaN.\<close>

fun fsign :: "pyfloat \<Rightarrow> real" where
  "fsign (Fin x) = sgn x"
| "fsign PInf = 1"
| "fsign NInf = - 1"
| "fsign NaN = 0"

definition inf_of_sign :: "real \<Rightarrow> pyfloat" where
  "inf_of_sign s = (if 0 < s then PInf else if s < 0 then NInf else NaN)"

fun fmul :: "pyfloat \<Rightarrow> pyfloat \<Rightarrow> pyfloat" where
  "fmul (Fin x) (Fin y) = fl (x * y)"
| "fmul NaN b = NaN"
| "fmul a NaN = NaN"
| "fmul a b = inf_of_sign (fsign a * fsign b)"

text \<open>Float division by a divisor that is not zero (the callers raise on zero).\<close>

fun fdiv :: "pyfloat \<Rightarrow> pyfloat \<Rightarrow> pyfloat" where
  "fdiv (Fin x) (Fin y) = fl (x / y)"
| "fdiv NaN b = NaN"
| "fdiv a NaN = NaN"
| "fdiv (Fin x) b = Fin 0"
| "fdiv a (Fin y) = inf_of_sign (fsign a * sgn y)"
| "fdiv a b = NaN"

fun fadd :: "pyfloat \<Rightarrow> pyfloat \<Rightarrow> pyfloat" where
  "fadd (Fin x) (Fin y) = fl (x + y)"
| "fadd NaN b = NaN"
| "fadd a NaN = NaN"
| "fadd PInf NInf = NaN"
| "fadd NInf PInf = NaN"
| "fadd (Fin x) b = b"
| "fadd a b = a"

text \<open>\<^verbatim>\<open>x ** 2\<close> on a float: an OverflowError where a product would return infinity.\<close>

fun float_pow2 :: "pyfloat \<Rightarrow> error + pyfloat" where
  "float_pow2 (Fin x) =
     (if float_overflow \<le> x * x then Inl OverflowError else Inr (Fin (flush (x * x))))"
| "float_pow2 NaN = Inr NaN"
| "float_pow2 a = Inr PInf"

text \<open>
  \<^verbatim>\<open>math.log\<close> and \<^verbatim>\<open>math.sqrt\<close> of a float. The logarithm of a finite positive float
  and the square root of a finite float are inside the range of the floats.
\<close>

fun math_log :: "pyfloat \<Rightarrow> error + pyfloat" where
  "math_log (Fin x) = (if x \<le> 0 then Inl ValueError else Inr (Fin (ln x)))"
| "math_log PInf = Inr PInf"
| "math_log NInf = Inl ValueError"
| "math_log NaN = Inr NaN"

fun math_sqrt :: "pyfloat \<Rightarrow> error + pyfloat" where
  "math_sqrt (Fin x) = (if x < 0 then Inl ValueError else Inr (Fin (sqrt x)))"
| "math_sqrt PInf = Inr PInf"
| "math_sqrt NInf = Inl ValueError"
| "math_sqrt NaN = Inr NaN"

text \<open>Float division, \<^verbatim>\<open>a / b\<close> with both operands floats.\<close>

definition float_div :: "pyfloat \<Rightarrow> pyfloat \<Rightarrow> error + pyfloat" where
  "float_div a b = (if b = Fin 0 then Inl ZeroDivisionError else Inr (fdiv a b))"

text \<open>The conversion of an operand to a float, when the other operand is a float.\<close>

fun to_float :: "pynum \<Rightarrow> error + pyfloat" where
  "to_float (PFloat a) = Inr a"
| "to_float (PInt i) =
     (if float_overflow \<le> \<bar>real_of_int i\<bar> then Inl OverflowError else Inr (Fin (real_of_int i)))"

text \<open>\<^verbatim>\<open>a * b\<close>: exact on two ints, a float product otherwise.\<close>

fun py_mul :: "pynum \<Rightarrow> pynum \<Rightarrow> error + pynum" where
  "py_mul (PInt i) (PInt j) = Inr (PInt (i * j))"
| "py_mul a b =
     (case to_float a of Inl e \<Rightarrow> Inl e | Inr x \<Rightarrow>
      (case to_float b of Inl e \<Rightarrow> Inl e | Inr y \<Rightarrow> Inr (PFloat (fmul x y))))"

text \<open>
  \<^verbatim>\<open>a / b\<close>: on two ints the quotient is computed exactly and then rounded, with an
  OverflowError when it is beyond the floats; otherwise both operands are converted and
  divided as floats.
\<close>

fun py_truediv :: "pynum \<Rightarrow> pynum \<Rightarrow> error + pyfloat" where
  "py_truediv (PInt i) (PInt j) =
     (if j = 0 then Inl ZeroDivisionError
      else if float_overflow \<le> \<bar>real_of_int i / real_of_int j\<bar> then Inl OverflowError
      else Inr (Fin (flush (real_of_int i / real_of_int j))))"
| "py_truediv a b =
     (case to_float a of Inl e \<Rightarrow> Inl e | Inr x \<Rightarrow>
      (case to_float b of Inl e \<Rightarrow> Inl e | Inr y \<Rightarrow> float_div x y))"

text \<open>
  \<^verbatim>\<open>max(x, 0)\<close> for a float \<open>x\<close>: the int \<open>0\<close> when \<open>0 > x\<close>, else \<open>x\<close> itself, which
  also is the result when \<open>x\<close> is NaN.
\<close>

fun py_max0 :: "pyfloat \<Rightarrow> pynum" where
  "py_max0 (Fin x) = (if x < 0 then PInt 0 else PFloat (Fin x))"
| "py_max0 NInf = PInt 0"
| "py_max0 a = PFloat a"

text \<open>
  \<^verbatim>\<open>ft_mic >= target\<close>: between numbers the values are compared exactly, and NaN
  compares false; a string against a number is a TypeError. The target is a finite
  number.
\<close>

fun py_ge :: "pyval \<Rightarrow> real \<Rightarrow> error + bool" where
  "py_ge (Num (PInt i)) t = Inr (t \<le> real_of_int i)"
| "py_ge (Num (PFloat (Fin x))) t = Inr (t \<le> x)"
| "py_ge (Num (PFloat PInf)) t = Inr True"
| "py_ge (Num (PFloat a)) t = Inr False"
| "py_ge (Str s) t = Inl TypeError"

text \<open>
  A finite number handed to the engine, as a Python number: a float when its value is
  inside the range of the floats; beyond it, the number can only be an int. Inside the
  range an int and the float of the same value behave alike where the engine uses them
  (lemma \<open>int_as_float\<close>).
\<close>

definition as_number :: "real \<Rightarrow> pynum" where
  "as_number x = (if \<bar>x\<bar> < float_overflow then PFloat (Fin x) else PInt \<lfloor>x\<rfloor>)"

subsection \<open>Dictionaries\<close>

text \<open>
  A Python dict keeps insertion order, and assigning to a key that is already present
  keeps the key's position. It is an association list; \<open>map_of\<close> is the lookup.
\<close>

fun dict_set :: "('k \<times> 'v) list \<Rightarrow> 'k \<Rightarrow> 'v \<Rightarrow> ('k \<times> 'v) list" where
  "dict_set [] k v = [(k, v)]"
| "dict_set ((k', v') # kvs) k v =
     (if k' = k then (k', v) # kvs else (k', v') # dict_set kvs k v)"

text \<open>\<^verbatim>\<open>d[k]\<close>\<close>

definition dict_getitem :: "('k \<times> 'v) list \<Rightarrow> 'k \<Rightarrow> error + 'v" where
  "dict_getitem d k = (case map_of d k of None \<Rightarrow> Inl KeyError | Some v \<Rightarrow> Inr v)"

text \<open>\<^verbatim>\<open>d.get(k, default)\<close> on a dict used only for lookups.\<close>

definition dict_get :: "('k \<rightharpoonup> 'v) \<Rightarrow> 'k \<Rightarrow> 'v \<Rightarrow> 'v" where
  "dict_get d k dflt = (case d k of None \<Rightarrow> dflt | Some v \<Rightarrow> v)"

subsection \<open>calculate_ft_mic\<close>

text \<open>The body of the \<^verbatim>\<open>try\<close> block, lines 14 to 18, in evaluation order.\<close>

definition ft_mic_try ::
  "pynum \<Rightarrow> pynum \<Rightarrow> pynum \<Rightarrow> pynum \<Rightarrow> pynum \<Rightarrow> pynum \<Rightarrow> error + pynum" where
  "ft_mic_try dose fu vd mic clt di =
     (case py_mul dose fu of Inl e \<Rightarrow> Inl e | Inr n \<Rightarrow>
      (case py_mul vd mic of Inl e \<Rightarrow> Inl e | Inr d \<Rightarrow>
       (case py_truediv n d of Inl e \<Rightarrow> Inl e | Inr q \<Rightarrow>
        (case math_log q of Inl e \<Rightarrow> Inl e | Inr term1 \<Rightarrow>
         (case py_truediv vd clt of Inl e \<Rightarrow> Inl e | Inr term2 \<Rightarrow>
          (case py_truediv (PInt 100) di of Inl e \<Rightarrow> Inl e | Inr term3 \<Rightarrow>
             Inr (py_max0 (fmul (fmul term1 term2) term3))))))))"

text \<open>
  The \<^verbatim>\<open>except (ValueError, ZeroDivisionError)\<close> clause turns these two exceptions into
  the message string; any other exception leaves the function.
\<close>

definition calculate_ft_mic ::
  "pynum \<Rightarrow> pynum \<Rightarrow> pynum \<Rightarrow> pynum \<Rightarrow> pynum \<Rightarrow> pynum \<Rightarrow> error + pyval" where
  "calculate_ft_mic dose fu vd mic clt di =
     (case ft_mic_try dose fu vd mic clt di of
        Inr r \<Rightarrow> Inr (Num r)
      | Inl e \<Rightarrow>
          if e = ValueError \<or> e = ZeroDivisionError
          then Inr (Str ''Invalid parameters. Please check your inputs.'')
          else Inl e)"

subsection \<open>calculate_lognormal_params\<close>

text \<open>
  The mean and the standard deviation are floats: the six widgets that supply them are
  created with float values. The source evaluates \<^verbatim>\<open>mean ** 2\<close> three times; the three
  evaluations give the same result or the same exception, so the model evaluates it
  once, where the source evaluates it first.
\<close>

definition calculate_lognormal_params :: "pyfloat \<Rightarrow> pyfloat \<Rightarrow> error + (pyfloat \<times> pyfloat)" where
  "calculate_lognormal_params mean std =
     (case float_pow2 std of Inl e \<Rightarrow> Inl e | Inr variance \<Rightarrow>
      (case float_pow2 mean of Inl e \<Rightarrow> Inl e | Inr mean2 \<Rightarrow>
       (case math_sqrt (fadd variance mean2) of Inl e \<Rightarrow> Inl e | Inr r \<Rightarrow>
        (case float_div mean2 r of Inl e \<Rightarrow> Inl e | Inr q \<Rightarrow>
         (case math_log q of Inl e \<Rightarrow> Inl e | Inr mu \<Rightarrow>
          (case float_div variance mean2 of Inl e \<Rightarrow> Inl e | Inr v \<Rightarrow>
           (case math_log (fadd (Fin 1) v) of Inl e \<Rightarrow> Inl e | Inr l \<Rightarrow>
            (case math_sqrt l of Inl e \<Rightarrow> Inl e | Inr sigma \<Rightarrow>
               Inr (mu, sigma)))))))))"

subsection \<open>monte_carlo_simulation\<close>

text \<open>
  The random stream. \<^verbatim>\<open>np.random.lognormal\<close> belongs to numpy, not to this program, so
  the generator is a parameter: \<open>g k mu sigma\<close> is the float that the \<open>k\<close>-th call of
  the run returns when it is called with \<open>mean=mu, sigma=sigma\<close>; it may be any float,
  an infinity and NaN included. The state threaded through the engine is the number of
  draws made so far. numpy rejects a negative \<open>sigma\<close> with a ValueError before
  drawing.
\<close>

type_synonym rng = "nat \<Rightarrow> pyfloat \<Rightarrow> pyfloat \<Rightarrow> pyfloat"

fun float_negative :: "pyfloat \<Rightarrow> bool" where
  "float_negative (Fin x) = (x < 0)"
| "float_negative NInf = True"
| "float_negative a = False"

definition np_random_lognormal ::
  "rng \<Rightarrow> pyfloat \<Rightarrow> pyfloat \<Rightarrow> nat \<Rightarrow> (error + pyfloat) \<times> nat" where
  "np_random_lognormal g mu sigma k =
     (if float_negative sigma then (Inl ValueError, k) else (Inr (g k mu sigma), Suc k))"

text \<open>The six locals computed by lines 29 to 31.\<close>

record lognormal_params =
  fu_mu :: pyfloat
  fu_sigma :: pyfloat
  vd_mu :: pyfloat
  vd_sigma :: pyfloat
  clt_mu :: pyfloat
  clt_sigma :: pyfloat

text \<open>Lines 42 and 43: the exposure of one patient and its comparison with the target.\<close>

definition meets_target ::
  "pynum \<Rightarrow> pynum \<Rightarrow> pynum \<Rightarrow> pynum \<Rightarrow> pynum \<Rightarrow> pynum \<Rightarrow> real \<Rightarrow> error + bool" where
  "meets_target dose fu vd mic clt di target =
     (case calculate_ft_mic dose fu vd mic clt di of
        Inl e \<Rightarrow> Inl e
      | Inr ft_mic \<Rightarrow> py_ge ft_mic target)"

text \<open>
  One iteration of the patient loop, lines 39 to 44. The dose, the interval and the
  threshold are finite numbers.
\<close>

definition simulate_patient ::
  "rng \<Rightarrow> lognormal_params \<Rightarrow> real \<Rightarrow> real \<Rightarrow> real \<Rightarrow> real \<Rightarrow> nat \<Rightarrow> (error + bool) \<times> nat" where
  "simulate_patient g p dose di mic target k =
     (case np_random_lognormal g (fu_mu p) (fu_sigma p) k of
        (Inl e, k1) \<Rightarrow> (Inl e, k1)
      | (Inr x1, k1) \<Rightarrow>
     (case np_random_lognormal g (vd_mu p) (vd_sigma p) k1 of
        (Inl e, k2) \<Rightarrow> (Inl e, k2)
      | (Inr x2, k2) \<Rightarrow>
     (case np_random_lognormal g (clt_mu p) (clt_sigma p) k2 of
        (Inl e, k3) \<Rightarrow> (Inl e, k3)
      | (Inr x3, k3) \<Rightarrow>
          (meets_target (as_number dose) (py_max0 x1) (py_max0 x2) (as_number mic)
             (py_max0 x3) (as_number di) target, k3))))"

text \<open>
  \<^verbatim>\<open>for _ in range(num_patients)\<close>: the first numeric argument is the number of
  iterations left, the second the running \<^verbatim>\<open>success_count\<close>.
\<close>

fun patient_loop ::
  "rng \<Rightarrow> lognormal_params \<Rightarrow> real \<Rightarrow> real \<Rightarrow> real \<Rightarrow> real \<Rightarrow> nat \<Rightarrow> nat \<Rightarrow> nat \<Rightarrow> (error + nat) \<times> nat" where
  "patient_loop g p dose di mic target 0 success_count k = (Inr success_count, k)"
| "patient_loop g p dose di mic target (Suc n) success_count k =
     (case simulate_patient g p dose di mic target k of
        (Inl e, k') \<Rightarrow> (Inl e, k')
      | (Inr b, k') \<Rightarrow>
          patient_loop g p dose di mic target n
            (if b then success_count + 1 else success_count) k')"

type_synonym attainment = "(real \<times> (real \<times> real \<times> real) list) list"

text \<open>
  Line 45, \<^verbatim>\<open>(success_count / num_patients) * 100\<close>: a true division of two ints, whose
  quotient lies between 0 and 1 and so cannot overflow, then a product with 100 that
  neither overflows nor underflows. The result is a finite float.
\<close>

definition pta_line :: "nat \<Rightarrow> int \<Rightarrow> error + real" where
  "pta_line success_count num_patients =
     (if num_patients = 0 then Inl ZeroDivisionError
      else Inr (flush (real success_count / real_of_int num_patients) * 100))"

text \<open>\<^verbatim>\<open>results[mic].append(x)\<close>\<close>

definition results_append :: "attainment \<Rightarrow> real \<Rightarrow> real \<times> real \<times> real \<Rightarrow> error + attainment" where
  "results_append results mic x =
     (case dict_getitem results mic of
        Inl e \<Rightarrow> Inl e
      | Inr l \<Rightarrow> Inr (dict_set results mic (l @ [x])))"

text \<open>\<^verbatim>\<open>for dose, di in dose_intervals\<close>, lines 36 to 46.\<close>

fun regimen_loop ::
  "rng \<Rightarrow> lognormal_params \<Rightarrow> real \<Rightarrow> int \<Rightarrow> real \<Rightarrow> (real \<times> real) list \<Rightarrow> attainment \<Rightarrow> nat
     \<Rightarrow> (error + attainment) \<times> nat" where
  "regimen_loop g p mic num_patients target [] results k = (Inr results, k)"
| "regimen_loop g p mic num_patients target ((dose, di) # rest) results k =
     (case patient_loop g p dose di mic target (nat num_patients) 0 k of
        (Inl e, k') \<Rightarrow> (Inl e, k')
      | (Inr success_count, k') \<Rightarrow>
          (case pta_line success_count num_patients of
             Inl e \<Rightarrow> (Inl e, k')
           | Inr pta \<Rightarrow>
               (case results_append results mic (dose, di, pta) of
                  Inl e \<Rightarrow> (Inl e, k')
                | Inr results' \<Rightarrow>
                    regimen_loop g p mic num_patients target rest results' k')))"

text \<open>\<^verbatim>\<open>for mic in mics\<close>, lines 34 to 46.\<close>

fun mic_loop ::
  "rng \<Rightarrow> lognormal_params \<Rightarrow> int \<Rightarrow> real \<Rightarrow> (real \<times> real) list \<Rightarrow> real list \<Rightarrow> attainment \<Rightarrow> nat
     \<Rightarrow> (error + attainment) \<times> nat" where
  "mic_loop g p num_patients target dose_intervals [] results k = (Inr results, k)"
| "mic_loop g p num_patients target dose_intervals (mic # mics) results k =
     (case regimen_loop g p mic num_patients target dose_intervals
             (dict_set results mic []) k of
        (Inl e, k') \<Rightarrow> (Inl e, k')
      | (Inr results', k') \<Rightarrow>
          mic_loop g p num_patients target dose_intervals mics results' k')"

text \<open>
  The population parameters, the regimens, the thresholds and the target are finite
  numbers; the population parameters are floats.
\<close>

definition monte_carlo_simulation ::
  "rng \<Rightarrow> (real \<times> real) list \<Rightarrow> real \<Rightarrow> real \<Rightarrow> real \<Rightarrow> real \<Rightarrow> real \<Rightarrow> real \<Rightarrow> real list
     \<Rightarrow> int \<Rightarrow> real \<Rightarrow> nat \<Rightarrow> (error + attainment) \<times> nat" where
  "monte_carlo_simulation g dose_intervals fu_mean fu_std vd_mean vd_std clt_mean clt_std
       mics num_patients target k =
     (case calculate_lognormal_params (Fin fu_mean) (Fin fu_std) of
        Inl e \<Rightarrow> (Inl e, k)
      | Inr (fm, fs) \<Rightarrow>
     (case calculate_lognormal_params (Fin vd_mean) (Fin vd_std) of
        Inl e \<Rightarrow> (Inl e, k)
      | Inr (vm, vs) \<Rightarrow>
     (case calculate_lognormal_params (Fin clt_mean) (Fin clt_std) of
        Inl e \<Rightarrow> (Inl e, k)
      | Inr (cm, cs) \<Rightarrow>
          mic_loop g
            \<lparr>fu_mu = fm, fu_sigma = fs, vd_mu = vm, vd_sigma = vs,
             clt_mu = cm, clt_sigma = cs\<rparr>
            num_patients target dose_intervals mics [] k)))"

subsection \<open>calculate_cfr\<close>

type_synonym cfr = "((real \<times> real) \<times> real) list"

text \<open>Lines 53 to 55, for one \<^verbatim>\<open>(dose, di, pta)\<close> of one threshold.\<close>

definition cfr_step :: "(real \<rightharpoonup> real) \<Rightarrow> real \<Rightarrow> cfr \<Rightarrow> real \<times> real \<times> real \<Rightarrow> error + cfr" where
  "cfr_step mic_distribution mic cfr_results x =
     (case x of (dose, di, pta) \<Rightarrow>
        (let c1 = (if map_of cfr_results (dose, di) = None
                   then dict_set cfr_results (dose, di) 0 else cfr_results)
         in case dict_getitem c1 (dose, di) of
              Inl e \<Rightarrow> Inl e
            | Inr v \<Rightarrow> Inr (dict_set c1 (dose, di) (v + pta * dict_get mic_distribution mic 0))))"

text \<open>\<^verbatim>\<open>for dose, di, pta in combinations\<close>\<close>

fun cfr_combinations ::
  "(real \<rightharpoonup> real) \<Rightarrow> real \<Rightarrow> (real \<times> real \<times> real) list \<Rightarrow> cfr \<Rightarrow> error + cfr" where
  "cfr_combinations mic_distribution mic [] cfr_results = Inr cfr_results"
| "cfr_combinations mic_distribution mic (x # xs) cfr_results =
     (case cfr_step mic_distribution mic cfr_results x of
        Inl e \<Rightarrow> Inl e
      | Inr c \<Rightarrow> cfr_combinations mic_distribution mic xs c)"

text \<open>\<^verbatim>\<open>for mic, combinations in results.items()\<close>\<close>

fun cfr_items :: "(real \<rightharpoonup> real) \<Rightarrow> attainment \<Rightarrow> cfr \<Rightarrow> error + cfr" where
  "cfr_items mic_distribution [] cfr_results = Inr cfr_results"
| "cfr_items mic_distribution ((mic, combinations) # rest) cfr_results =
     (case cfr_combinations mic_distribution mic combinations cfr_results of
        Inl e \<Rightarrow> Inl e
      | Inr c \<Rightarrow> cfr_items mic_distribution rest c)"

definition calculate_cfr :: "attainment \<Rightarrow> (real \<rightharpoonup> real) \<Rightarrow> error + cfr" where
  "calculate_cfr results mic_distribution = cfr_items mic_distribution results []"

section \<open>Definitions used to state the properties\<close>

text \<open>
  These are not functions of app.py. They name what the statements below talk about:
  the attainment percentage that line 45 computes from a success count, the regimen of
  a result triple, the rows the engine builds, and the weighted sum that the aggregator
  is compared with.
\<close>

text \<open>Line 45: \<^verbatim>\<open>(success_count / num_patients) * 100\<close>.\<close>

definition pta_of_count :: "int \<Rightarrow> nat \<Rightarrow> real" where
  "pta_of_count num_patients s = flush (real s / real_of_int num_patients) * 100"

definition regimen_of :: "real \<times> real \<times> real \<Rightarrow> real \<times> real" where
  "regimen_of t = (case t of (dose, di, pta) \<Rightarrow> (dose, di))"

text \<open>
  A row \<open>l\<close> of the result is well formed for the regimen list when it has one triple
  per regimen, in order, each with a percentage computed from a count of at most
  \<open>num_patients\<close> successes.
\<close>

definition row_ok :: "int \<Rightarrow> (real \<times> real) list \<Rightarrow> (real \<times> real \<times> real) list \<Rightarrow> bool" where
  "row_ok num_patients dose_intervals l \<longleftrightarrow>
     map regimen_of l = dose_intervals \<and>
     (\<forall>t \<in> set l. \<exists>s. s \<le> nat num_patients \<and> num_patients \<noteq> 0
                     \<and> snd (snd t) = pta_of_count num_patients s)"

text \<open>
  The keys of a dict built by assigning the elements of a list in order: each element
  once, at the position of its first occurrence.
\<close>

fun first_occurrences :: "'a list \<Rightarrow> 'a list" where
  "first_occurrences [] = []"
| "first_occurrences (x # xs) = x # filter (\<lambda>y. y \<noteq> x) (first_occurrences xs)"

text \<open>
  A real result is inside the range of the floats when it rounds neither to an infinity
  nor, unless it is zero itself, to zero.
\<close>

definition in_float_range :: "real \<Rightarrow> bool" where
  "in_float_range x \<longleftrightarrow> \<bar>x\<bar> < float_overflow \<and> (x = 0 \<or> float_underflow < \<bar>x\<bar>)"

text \<open>
  A concrete random stream for the worked examples: every draw is the median
  \<open>exp mu\<close> of the lognormal distribution, the value that the standard normal
  variate 0 gives.
\<close>

fun float_exp :: "pyfloat \<Rightarrow> pyfloat" where
  "float_exp (Fin x) = fl (exp x)"
| "float_exp PInf = PInf"
| "float_exp NInf = Fin 0"
| "float_exp NaN = NaN"

definition median_rng :: rng where
  "median_rng k mu sigma = float_exp mu"

text \<open>A random stream all of whose draws are finite: \<open>g k mu sigma\<close> is the value drawn.\<close>

definition finite_rng :: "(nat \<Rightarrow> pyfloat \<Rightarrow> pyfloat \<Rightarrow> real) \<Rightarrow> rng" where
  "finite_rng g k mu sigma = Fin (g k mu sigma)"

text \<open>The value a regimen has in the running dict, 0 if it has no entry yet.\<close>

definition score_so_far :: "cfr \<Rightarrow> real \<times> real \<Rightarrow> real" where
  "score_so_far c r = (case map_of c r of None \<Rightarrow> 0 | Some v \<Rightarrow> v)"

text \<open>
  The attainment that one threshold's list records for regimen \<open>r\<close>: the \<open>pta\<close> of its
  triple (lemma \<open>row_attainment_single\<close>); should the list hold the regimen several
  times, the sum of their \<open>pta\<close>; 0 if it does not hold it.
\<close>

definition row_attainment :: "(real \<times> real \<times> real) list \<Rightarrow> real \<times> real \<Rightarrow> real" where
  "row_attainment combos r = (\<Sum>t \<leftarrow> combos. if regimen_of t = r then snd (snd t) else 0)"

definition row_score :: "(real \<rightharpoonup> real) \<Rightarrow> real \<times> real \<Rightarrow> real \<Rightarrow> (real \<times> real \<times> real) list \<Rightarrow> real" where
  "row_score wd r mic combos = row_attainment combos r * dict_get wd mic 0"

text \<open>The regimens that occur anywhere in the attainment result.\<close>

definition regimens_in :: "attainment \<Rightarrow> (real \<times> real) set" where
  "regimens_in results = (\<Union>(mic, combos) \<in> set results. regimen_of ` set combos)"

text \<open>
  The score as the specification words it: the sum, over the thresholds of the
  attainment result, of the regimen's attainment times the threshold's weight, the
  weight of a threshold without an entry in the distribution being 0.
\<close>

definition response_score :: "(real \<rightharpoonup> real) \<Rightarrow> attainment \<Rightarrow> real \<times> real \<Rightarrow> real" where
  "response_score wd results r =
     (\<Sum>(mic, combos) \<leftarrow> results. row_attainment combos r * dict_get wd mic 0)"





section \<open>Properties\<close>


lemma float_underflow_less_1: "float_underflow < 1"
  by (simp add: float_underflow_def)

lemma float_overflow_gt_100: "100 < float_overflow"
  by (simp add: float_overflow_def)

lemma float_overflow_pos: "0 < float_overflow"
  using float_overflow_gt_100 by linarith

lemma flush_0 [simp]: "flush 0 = 0"
  by (simp add: flush_def)


lemma flush_nonneg: "0 \<le> x \<Longrightarrow> 0 \<le> flush x"
  by (simp add: flush_def)

lemma flush_le: "0 \<le> x \<Longrightarrow> flush x \<le> x"
  by (simp add: flush_def)


lemma fl_0 [simp]: "fl 0 = Fin 0"
  using float_overflow_pos by (simp add: fl_def)

lemma fl_not_NaN [simp]: "fl x \<noteq> NaN"
  by (simp add: fl_def)

lemma fl_in_range: "in_float_range x \<Longrightarrow> fl x = Fin x"
  by (auto simp add: in_float_range_def fl_def flush_def)

lemma fl_Fin_iff: "fl x = Fin y \<longleftrightarrow> \<bar>x\<bar> < float_overflow \<and> y = flush x"
  by (auto simp add: fl_def)

lemma in_float_range_0 [simp]: "in_float_range 0"
  using float_overflow_pos by (simp add: in_float_range_def)

lemma in_float_range_1 [simp]: "in_float_range 1"
  using float_overflow_gt_100 float_underflow_less_1 by (simp add: in_float_range_def)

lemma in_float_range_100 [simp]: "in_float_range 100"
  using float_overflow_gt_100 float_underflow_less_1 by (simp add: in_float_range_def)

lemma float_overflow_not_le_100 [simp]: "\<not> float_overflow \<le> 100"
  using float_overflow_gt_100 by simp

lemma py_max0_cases:
  "py_max0 a = PInt 0 \<or> (\<exists>r. py_max0 a = PFloat (Fin r) \<and> 0 \<le> r)
   \<or> py_max0 a = PFloat PInf \<or> py_max0 a = PFloat NaN"
  by (cases a) auto

lemma to_float_error: "to_float a = Inl e \<Longrightarrow> e = OverflowError"
  by (cases a) (auto split: if_splits)

lemma py_mul_error: "py_mul a b = Inl e \<Longrightarrow> e = OverflowError"
  by (cases a; cases b) (auto split: sum.splits if_splits dest: to_float_error)

lemma py_truediv_error:
  "py_truediv a b = Inl e \<Longrightarrow> e = OverflowError \<or> e = ZeroDivisionError"
  by (cases a; cases b)
     (auto simp add: float_div_def split: sum.splits if_splits dest: to_float_error)

lemma math_log_error: "math_log a = Inl e \<Longrightarrow> e = ValueError"
  by (cases a) (auto split: if_splits)

lemma ft_mic_try_error:
  assumes "ft_mic_try dose fu vd mic clt di = Inl e"
  shows "e = OverflowError \<or> e = ZeroDivisionError \<or> e = ValueError"
  using assms
  by (auto simp add: ft_mic_try_def split: sum.splits
           dest: py_mul_error py_truediv_error math_log_error)

lemma ft_mic_try_value:
  assumes "ft_mic_try dose fu vd mic clt di = Inr n"
  shows "\<exists>a. n = py_max0 a"
  using assms by (auto simp add: ft_mic_try_def split: sum.splits)

lemma calculate_ft_mic_outcomes:
  "(\<exists>r. calculate_ft_mic dose fu vd mic clt di = Inr (Num (PFloat (Fin r))) \<and> 0 \<le> r)
   \<or> calculate_ft_mic dose fu vd mic clt di = Inr (Num (PInt 0))
   \<or> calculate_ft_mic dose fu vd mic clt di = Inr (Num (PFloat PInf))
   \<or> calculate_ft_mic dose fu vd mic clt di = Inr (Num (PFloat NaN))
   \<or> calculate_ft_mic dose fu vd mic clt di
        = Inr (Str ''Invalid parameters. Please check your inputs.'')
   \<or> calculate_ft_mic dose fu vd mic clt di = Inl OverflowError"
proof (cases "ft_mic_try dose fu vd mic clt di")
  case (Inl e)
  from ft_mic_try_error [OF Inl] Inl show ?thesis
    by (auto simp add: calculate_ft_mic_def)
next
  case (Inr n)
  from ft_mic_try_value [OF Inr] obtain a where "n = py_max0 a" ..
  with py_max0_cases [of a] Inr show ?thesis
    by (auto simp add: calculate_ft_mic_def)
qed

lemma ft_mic_try_floats_error:
  assumes "ft_mic_try (PFloat a) (PFloat b) (PFloat c) (PFloat d) (PFloat e) (PFloat f) = Inl err"
  shows "err = ZeroDivisionError \<or> err = ValueError"
  using assms
  by (auto simp add: ft_mic_try_def float_div_def split: sum.splits if_splits
           dest: math_log_error)

lemma calculate_ft_mic_floats_total:
  "calculate_ft_mic (PFloat a) (PFloat b) (PFloat c) (PFloat d) (PFloat e) (PFloat f) \<noteq> Inl err"
proof (cases "ft_mic_try (PFloat a) (PFloat b) (PFloat c) (PFloat d) (PFloat e) (PFloat f)")
  case (Inl x)
  from ft_mic_try_floats_error [OF Inl] Inl show ?thesis
    by (auto simp add: calculate_ft_mic_def)
next
  case (Inr n)
  then show ?thesis by (simp add: calculate_ft_mic_def)
qed



lemma overflow_error_example:
  "calculate_ft_mic (PInt (10 ^ 309)) (PInt 1) (PInt 1) (PInt 1) (PInt 1) (PInt 1)
     = Inl OverflowError"
  by (simp add: calculate_ft_mic_def ft_mic_try_def float_overflow_def)

lemma nan_example:
  "calculate_ft_mic (PFloat (Fin (2 ^ 1023))) (PFloat (Fin 1)) (PFloat (Fin (2 ^ 1023)))
     (PFloat (Fin 1)) (PFloat (Fin (1 / 2 ^ 1022))) (PInt 1)
   = Inr (Num (PFloat NaN))"
  by (simp add: calculate_ft_mic_def ft_mic_try_def float_div_def fl_def flush_def
        float_overflow_def float_underflow_def inf_of_sign_def)

lemma flush_in_range: "in_float_range x \<Longrightarrow> flush x = x"
  by (auto simp add: in_float_range_def flush_def)

lemma float_pow2_in_range:
  assumes "in_float_range (x ^ 2)"
  shows "float_pow2 (Fin x) = Inr (Fin (x ^ 2))"
proof -
  from assms have "\<not> float_overflow \<le> x * x"
    by (simp add: in_float_range_def power2_eq_square)
  then show ?thesis
    using flush_in_range [OF assms] by (simp add: power2_eq_square)
qed

lemma math_sqrt_not_negative: "math_sqrt l = Inr s \<Longrightarrow> \<not> float_negative s"
  by (cases l) (auto split: if_splits)

lemma lognormal_params_sigma_nonneg:
  "calculate_lognormal_params mean std = Inr (mu, sigma) \<Longrightarrow> \<not> float_negative sigma"
  by (auto simp add: calculate_lognormal_params_def split: sum.splits
           dest: math_sqrt_not_negative)

lemma lognormal_params_in_range:
  assumes m: "mean \<noteq> 0"
    and r1: "in_float_range (std ^ 2)" and r2: "in_float_range (mean ^ 2)"
    and r3: "in_float_range (std ^ 2 + mean ^ 2)"
    and r4: "in_float_range (mean ^ 2 / sqrt (std ^ 2 + mean ^ 2))"
    and r5: "in_float_range (std ^ 2 / mean ^ 2)"
    and r6: "in_float_range (1 + std ^ 2 / mean ^ 2)"
  shows "calculate_lognormal_params (Fin mean) (Fin std) =
           Inr (Fin (ln (mean ^ 2 / sqrt (std ^ 2 + mean ^ 2))),
                Fin (sqrt (ln (1 + std ^ 2 / mean ^ 2))))"
proof -
  have m2: "0 < mean ^ 2" using m by simp
  have s: "0 < std ^ 2 + mean ^ 2" using m2 by (simp add: add_nonneg_pos)
  have r: "0 < sqrt (std ^ 2 + mean ^ 2)" using s by simp
  have q: "0 < mean ^ 2 / sqrt (std ^ 2 + mean ^ 2)" using m2 r by simp
  have v: "0 \<le> std ^ 2 / mean ^ 2" by simp
  have l: "0 \<le> ln (1 + std ^ 2 / mean ^ 2)" using v by simp
  have rn0: "sqrt (std ^ 2 + mean ^ 2) \<noteq> 0" using r by linarith
  have rn: "Fin (sqrt (std ^ 2 + mean ^ 2)) \<noteq> Fin 0" using rn0 unfolding pyfloat.inject .
  have mn0: "mean ^ 2 \<noteq> 0" using m2 by linarith
  have mn: "Fin (mean ^ 2) \<noteq> Fin 0" using mn0 unfolding pyfloat.inject .
  have e1: "float_pow2 (Fin std) = Inr (Fin (std ^ 2))" by (rule float_pow2_in_range [OF r1])
  have e2: "float_pow2 (Fin mean) = Inr (Fin (mean ^ 2))" by (rule float_pow2_in_range [OF r2])
  have e3: "fadd (Fin (std ^ 2)) (Fin (mean ^ 2)) = Fin (std ^ 2 + mean ^ 2)"
    by (simp only: fadd.simps fl_in_range [OF r3])
  have s1: "\<not> std ^ 2 + mean ^ 2 < 0" using s by linarith
  have e4: "math_sqrt (Fin (std ^ 2 + mean ^ 2)) = Inr (Fin (sqrt (std ^ 2 + mean ^ 2)))"
    using s1 by (simp only: math_sqrt.simps if_False)
  have e5: "float_div (Fin (mean ^ 2)) (Fin (sqrt (std ^ 2 + mean ^ 2)))
              = Inr (Fin (mean ^ 2 / sqrt (std ^ 2 + mean ^ 2)))"
    unfolding float_div_def using rn by (simp only: if_False fdiv.simps fl_in_range [OF r4])
  have q1: "\<not> mean ^ 2 / sqrt (std ^ 2 + mean ^ 2) \<le> 0" using q by linarith
  have e6: "math_log (Fin (mean ^ 2 / sqrt (std ^ 2 + mean ^ 2)))
              = Inr (Fin (ln (mean ^ 2 / sqrt (std ^ 2 + mean ^ 2))))"
    using q1 by (simp only: math_log.simps if_False)
  have e7: "float_div (Fin (std ^ 2)) (Fin (mean ^ 2)) = Inr (Fin (std ^ 2 / mean ^ 2))"
    unfolding float_div_def using mn by (simp only: if_False fdiv.simps fl_in_range [OF r5])
  have e8: "fadd (Fin 1) (Fin (std ^ 2 / mean ^ 2)) = Fin (1 + std ^ 2 / mean ^ 2)"
    by (simp only: fadd.simps fl_in_range [OF r6])
  have v1: "\<not> 1 + std ^ 2 / mean ^ 2 \<le> 0" using v by linarith
  have e9: "math_log (Fin (1 + std ^ 2 / mean ^ 2)) = Inr (Fin (ln (1 + std ^ 2 / mean ^ 2)))"
    using v1 by (simp only: math_log.simps if_False)
  have l1: "\<not> ln (1 + std ^ 2 / mean ^ 2) < 0" using l by linarith
  have e10: "math_sqrt (Fin (ln (1 + std ^ 2 / mean ^ 2)))
               = Inr (Fin (sqrt (ln (1 + std ^ 2 / mean ^ 2))))"
    using l1 by (simp only: math_sqrt.simps if_False)
  show ?thesis
    unfolding calculate_lognormal_params_def e1 e2 sum.case e3 e4 e5 e6 e7 e8 e9 e10
    by (rule refl)
qed

lemma in_float_range_sqrt_square:
  assumes "0 < m" and "in_float_range (m ^ 2)"
  shows "in_float_range m"
proof (cases "1 \<le> m")
  case True
  then have "m \<le> m ^ 2" by (simp add: power2_eq_square)
  with assms True float_underflow_less_1 show ?thesis
    by (auto simp add: in_float_range_def)
next
  case False
  then have "m < 1" by simp
  with assms(1) have "m ^ 2 < m" by (simp add: power2_eq_square)
  with assms False float_overflow_gt_100 show ?thesis
    by (auto simp add: in_float_range_def)
qed

lemma lognormal_params_std0:
  assumes m: "0 < mean" and r: "in_float_range (mean ^ 2)"
  shows "calculate_lognormal_params (Fin mean) (Fin 0) = Inr (Fin (ln mean), Fin 0)"
proof -
  have q: "mean ^ 2 / sqrt (mean ^ 2) = mean" using m by (simp add: power2_eq_square)
  have mr: "in_float_range mean" by (rule in_float_range_sqrt_square [OF m r])
  have "calculate_lognormal_params (Fin mean) (Fin 0) =
           Inr (Fin (ln (mean ^ 2 / sqrt (0 ^ 2 + mean ^ 2))),
                Fin (sqrt (ln (1 + 0 ^ 2 / mean ^ 2))))"
    using m r mr q by (intro lognormal_params_in_range) simp_all
  then show ?thesis using q by simp
qed




lemma in_float_range_posI:
  "0 < x \<Longrightarrow> float_underflow < x \<Longrightarrow> x < float_overflow \<Longrightarrow> in_float_range x"
  unfolding in_float_range_def by (simp only: abs_of_pos) simp

lemma quotient_in_range:
  assumes a: "0 < a" and s: "a \<le> s"
    and lo: "float_underflow < a / max 1 s" and hi: "max 1 a < float_overflow"
  shows "in_float_range (a / sqrt s)"
proof -
  have s0: "0 < s" using a s by linarith
  have r0: "0 < sqrt s" using s0 by simp
  have up: "sqrt s \<le> max 1 s"
  proof (cases "s \<le> 1")
    case True
    then have "sqrt s \<le> 1" by simp
    then show ?thesis by simp
  next
    case False
    then have "1 \<le> s" by simp
    then have "s \<le> s ^ 2" by (simp add: power2_eq_square)
    with s0 have "sqrt s \<le> s" by (intro real_le_lsqrt) simp_all
    then show ?thesis by simp
  qed
  have "a / max 1 s \<le> a / sqrt s"
    using a r0 up by (intro divide_left_mono) (simp_all add: less_imp_le)
  with lo have l: "float_underflow < a / sqrt s" by linarith
  have "sqrt a \<le> sqrt s" using s by simp
  then have "a / sqrt s \<le> a / sqrt a"
    using a r0 by (intro divide_left_mono) (simp_all add: less_imp_le)
  also have "a / sqrt a = sqrt a" using a by (simp add: real_div_sqrt less_imp_le)
  also have "sqrt a \<le> max 1 a"
  proof (cases "a \<le> 1")
    case True
    then have "sqrt a \<le> 1" by simp
    then show ?thesis by simp
  next
    case False
    then have "1 \<le> a" by simp
    then have "a \<le> a ^ 2" by (simp add: power2_eq_square)
    with a have "sqrt a \<le> a" by (intro real_le_lsqrt) simp_all
    then show ?thesis by simp
  qed
  finally have h: "a / sqrt s < float_overflow" using hi by linarith
  have p: "0 < a / sqrt s" using a r0 by simp
  show ?thesis by (rule in_float_range_posI [OF p l h])
qed

lemma map_of_dict_set: "map_of (dict_set d k v) = (map_of d)(k \<mapsto> v)"
  by (induction d) (auto simp add: fun_eq_iff)

lemma keys_dict_set:
  "map fst (dict_set d k v) = (if k \<in> set (map fst d) then map fst d else map fst d @ [k])"
  by (induction d) (force split: if_splits)+

lemma patient_loop_bounds:
  "patient_loop g p dose di mic target n sc k = (Inr sc', k') \<Longrightarrow> sc \<le> sc' \<and> sc' \<le> sc + n"
proof (induction n arbitrary: sc k)
  case 0
  then show ?case by simp
next
  case (Suc n)
  obtain r k1 where sp: "simulate_patient g p dose di mic target k = (r, k1)"
    by (cases "simulate_patient g p dose di mic target k")
  show ?case
  proof (cases r)
    case (Inl e)
    with Suc.prems sp show ?thesis by simp
  next
    case (Inr b)
    with Suc.prems sp
    have "patient_loop g p dose di mic target n (if b then sc + 1 else sc) k1 = (Inr sc', k')"
      by simp
    from Suc.IH [OF this] show ?thesis by (auto split: if_splits)
  qed
qed

text \<open>
  What \<^verbatim>\<open>success_count\<close> counts: a patient loop that completes has made three draws
  per patient, and its count has grown by the number of patients, among the \<open>n\<close>
  drawn from position \<open>k\<close> of the stream on, whose exposure is at least the target.
\<close>

lemma simulate_patient_counter:
  "simulate_patient g p dose di mic target k = (Inr b, k') \<Longrightarrow> k' = k + 3"
  by (auto simp add: simulate_patient_def np_random_lognormal_def split: if_splits)

lemma patient_loop_counts:
  assumes "patient_loop g p dose di mic target n sc k = (Inr s, k')"
  shows "s = sc + length [j \<leftarrow> [0..<n].
                   simulate_patient g p dose di mic target (k + 3 * j) = (Inr True, k + 3 * j + 3)]
       \<and> k' = k + 3 * n"
  using assms
proof (induction n arbitrary: sc k)
  case 0
  then show ?case by simp
next
  case (Suc n)
  obtain r k1 where sp: "simulate_patient g p dose di mic target k = (r, k1)"
    by (cases "simulate_patient g p dose di mic target k")
  from Suc.prems sp obtain b where r: "r = Inr b" by (cases r) auto
  from simulate_patient_counter [OF sp [unfolded r]] have k1: "k1 = k + 3" .
  have rest: "patient_loop g p dose di mic target n (if b then sc + 1 else sc) (k + 3) = (Inr s, k')"
    using Suc.prems sp r k1 by simp
  note IH = Suc.IH [OF rest]
  have shift: "[j \<leftarrow> [0..<Suc n]. P j] = (if P 0 then [0] else []) @ map Suc [j \<leftarrow> [0..<n]. P (Suc j)]"
    for P :: "nat \<Rightarrow> bool"
    by (simp add: upt_conv_Cons map_Suc_upt [symmetric] filter_map comp_def del: upt_Suc)
  have here: "(simulate_patient g p dose di mic target (k + 3 * 0) = (Inr True, k + 3 * 0 + 3)) = b"
    using sp r k1 by auto
  have idx: "k + 3 * Suc j = k + 3 + 3 * j" for j by simp
  show ?case
    using IH here
    by (simp add: shift idx add.assoc del: upt_Suc)
qed

lemma regimen_loop_effect:
  assumes "regimen_loop g p mic N target dis res k = (Inr res', k')"
    and "map_of res mic = Some l"
  shows "map fst res' = map fst res
       \<and> (\<forall>m. m \<noteq> mic \<longrightarrow> map_of res' m = map_of res m)
       \<and> (\<exists>ts. map_of res' mic = Some (l @ ts) \<and> row_ok N dis ts)"
  using assms
proof (induction dis arbitrary: res k l)
  case Nil
  then show ?case by (simp add: row_ok_def)
next
  case (Cons x dis)
  obtain dose di where x: "x = (dose, di)" by (cases x)
  obtain r k1 where pl: "patient_loop g p dose di mic target (nat N) 0 k = (r, k1)"
    by (cases "patient_loop g p dose di mic target (nat N) 0 k")
  from Cons.prems(1) x pl obtain sc where r: "r = Inr sc"
    by (cases r) auto
  from patient_loop_bounds [OF pl [unfolded r]] have sc: "sc \<le> nat N" by simp
  from Cons.prems(1) x pl r have N0: "N \<noteq> 0"
    by (auto simp add: pta_line_def split: if_splits)
  let ?t = "(dose, di, pta_of_count N sc)"
  let ?res1 = "dict_set res mic (l @ [?t])"
  have ra: "results_append res mic ?t = Inr ?res1"
    using Cons.prems(2) by (simp add: results_append_def dict_getitem_def)
  have dv: "pta_line sc N = Inr (pta_of_count N sc)"
    using N0 by (simp add: pta_line_def pta_of_count_def)
  have rest: "regimen_loop g p mic N target dis ?res1 k1 = (Inr res', k')"
    using Cons.prems(1) x pl r dv ra by simp
  have l1: "map_of ?res1 mic = Some (l @ [?t])" by (simp add: map_of_dict_set)
  from Cons.IH [OF rest l1] obtain ts where
    k: "map fst res' = map fst ?res1" and
    o: "\<forall>m. m \<noteq> mic \<longrightarrow> map_of res' m = map_of ?res1 m" and
    t: "map_of res' mic = Some ((l @ [?t]) @ ts)" and
    ro: "row_ok N dis ts" by blast
  have mk: "mic \<in> set (map fst res)"
    using Cons.prems(2) by (metis map_of_eq_None_iff option.distinct(1) set_map)
  have "map fst res' = map fst res" using k mk by (simp add: keys_dict_set)
  moreover have "\<forall>m. m \<noteq> mic \<longrightarrow> map_of res' m = map_of res m"
    using o by (simp add: map_of_dict_set)
  moreover have "map_of res' mic = Some (l @ (?t # ts))" using t by simp
  moreover have "row_ok N (x # dis) (?t # ts)"
    using ro sc N0 x by (auto simp add: row_ok_def regimen_of_def)
  ultimately show ?case by blast
qed

lemma mic_loop_effect:
  assumes "mic_loop g p N target dis mics res k = (Inr res', k')"
  shows "set (map fst res') = set (map fst res) \<union> set mics
       \<and> (distinct (map fst res) \<longrightarrow> distinct (map fst res'))
       \<and> (distinct mics \<and> set mics \<inter> set (map fst res) = {} \<longrightarrow> map fst res' = map fst res @ mics)
       \<and> (\<forall>m. m \<notin> set mics \<longrightarrow> map_of res' m = map_of res m)
       \<and> (\<forall>m \<in> set mics. \<exists>l. map_of res' m = Some l \<and> row_ok N dis l)"
  using assms
proof (induction mics arbitrary: res k)
  case Nil
  then show ?case by simp
next
  case (Cons mic mics)
  let ?res0 = "dict_set res mic []"
  obtain r k1 where rl: "regimen_loop g p mic N target dis ?res0 k = (r, k1)"
    by (cases "regimen_loop g p mic N target dis ?res0 k")
  from Cons.prems rl obtain res1 where r: "r = Inr res1" by (cases r) auto
  have l0: "map_of ?res0 mic = Some []" by (simp add: map_of_dict_set)
  from regimen_loop_effect [OF rl [unfolded r] l0] obtain ts where
    k1: "map fst res1 = map fst ?res0" and
    o1: "\<forall>m. m \<noteq> mic \<longrightarrow> map_of res1 m = map_of ?res0 m" and
    t1: "map_of res1 mic = Some ts" and
    ro: "row_ok N dis ts" by auto
  have rest: "mic_loop g p N target dis mics res1 k1 = (Inr res', k')"
    using Cons.prems rl r by simp
  note IH = Cons.IH [OF rest]
  have a: "set (map fst res') = set (map fst res) \<union> set (mic # mics)"
    using IH k1 by (auto simp add: keys_dict_set split: if_splits)
  have b: "distinct (map fst res) \<longrightarrow> distinct (map fst res')"
    using IH k1 by (auto simp add: keys_dict_set split: if_splits)
  have c: "distinct (mic # mics) \<and> set (mic # mics) \<inter> set (map fst res) = {}
             \<longrightarrow> map fst res' = map fst res @ mic # mics"
    using IH k1 by (auto simp add: keys_dict_set split: if_splits)
  have d: "\<forall>m. m \<notin> set (mic # mics) \<longrightarrow> map_of res' m = map_of res m"
    using IH o1 by (simp add: map_of_dict_set)
  have e: "\<forall>m \<in> set (mic # mics). \<exists>l. map_of res' m = Some l \<and> row_ok N dis l"
  proof
    fix m assume m: "m \<in> set (mic # mics)"
    show "\<exists>l. map_of res' m = Some l \<and> row_ok N dis l"
    proof (cases "m \<in> set mics")
      case True
      with IH show ?thesis by blast
    next
      case False
      with m have "m = mic" by simp
      with False IH t1 ro show ?thesis by simp
    qed
  qed
  from a b c d e show ?case by blast
qed

lemma monte_carlo_simulation_Inr:
  assumes "monte_carlo_simulation g dis fu_mean fu_std vd_mean vd_std clt_mean clt_std
             mics N target k = (Inr results, k')"
  obtains p where "mic_loop g p N target dis mics [] k = (Inr results, k')"
  using assms
  by (auto simp add: monte_carlo_simulation_def split: sum.splits prod.splits)

lemma monte_carlo_simulation_rows:
  assumes "monte_carlo_simulation g dis fu_mean fu_std vd_mean vd_std clt_mean clt_std
             mics N target k = (Inr results, k')"
  shows "set (map fst results) = set mics" and "distinct (map fst results)"
    and "distinct mics \<Longrightarrow> map fst results = mics"
    and "(mic, l) \<in> set results \<Longrightarrow> row_ok N dis l"
proof -
  from assms obtain p where ml: "mic_loop g p N target dis mics [] k = (Inr results, k')"
    by (rule monte_carlo_simulation_Inr)
  note eff = mic_loop_effect [OF ml]
  show keys: "set (map fst results) = set mics" using eff by simp
  show dist: "distinct (map fst results)" using eff by simp
  show "distinct mics \<Longrightarrow> map fst results = mics" using eff by simp
  show "row_ok N dis l" if "(mic, l) \<in> set results"
  proof -
    from that have "mic \<in> set mics" using keys by force
    with eff obtain l' where "map_of results mic = Some l'" "row_ok N dis l'" by blast
    moreover from that dist have "map_of results mic = Some l" by simp
    ultimately show ?thesis by simp
  qed
qed

lemma patient_loop_pos:
  assumes "0 < n"
  shows "patient_loop g p dose di mic target n sc k =
     (case simulate_patient g p dose di mic target k of
        (Inl e, k') \<Rightarrow> (Inl e, k')
      | (Inr b, k') \<Rightarrow> patient_loop g p dose di mic target (n - 1) (if b then sc + 1 else sc) k')"
proof -
  from assms obtain m where n: "n = Suc m" by (cases n) auto
  show ?thesis unfolding n by (simp split: prod.split sum.split)
qed

lemma set_first_occurrences: "set (first_occurrences xs) = set xs"
  by (induction xs) auto

lemma distinct_first_occurrences: "distinct (first_occurrences xs)"
  by (induction xs) auto

lemma first_occurrences_distinct: "distinct xs \<Longrightarrow> first_occurrences xs = xs"
proof (induction xs)
  case Nil
  then show ?case by simp
next
  case (Cons x xs)
  then have "filter (\<lambda>y. y \<noteq> x) xs = xs" by (auto intro: filter_True)
  with Cons show ?case by simp
qed

lemma mic_loop_keys:
  assumes "mic_loop g p N target dis mics res k = (Inr res', k')"
  shows "map fst res' = map fst res @ filter (\<lambda>m. m \<notin> set (map fst res)) (first_occurrences mics)"
  using assms
proof (induction mics arbitrary: res k)
  case Nil
  then show ?case by simp
next
  case (Cons mic mics)
  let ?res0 = "dict_set res mic []"
  obtain r k1 where rl: "regimen_loop g p mic N target dis ?res0 k = (r, k1)"
    by (cases "regimen_loop g p mic N target dis ?res0 k")
  from Cons.prems rl obtain res1 where r: "r = Inr res1" by (cases r) auto
  have l0: "map_of ?res0 mic = Some []" by (simp add: map_of_dict_set)
  from regimen_loop_effect [OF rl [unfolded r] l0]
  have k1: "map fst res1 = map fst ?res0" by simp
  have rest: "mic_loop g p N target dis mics res1 k1 = (Inr res', k')"
    using Cons.prems rl r by simp
  note IH = Cons.IH [OF rest]
  show ?case
  proof (cases "mic \<in> set (map fst res)")
    case True
    then have e: "map fst res1 = map fst res" using k1 by (simp add: keys_dict_set)
    have "filter (\<lambda>m. m \<notin> set (map fst res)) (filter (\<lambda>y. y \<noteq> mic) (first_occurrences mics))
            = filter (\<lambda>m. m \<notin> set (map fst res)) (first_occurrences mics)"
      using True by (auto intro: filter_cong)
    with IH True show ?thesis unfolding e by simp
  next
    case False
    then have e: "map fst res1 = map fst res @ [mic]" using k1 by (simp add: keys_dict_set)
    have "filter (\<lambda>m. m \<notin> set (map fst res @ [mic])) (first_occurrences mics)
            = filter (\<lambda>m. m \<notin> set (map fst res)) (filter (\<lambda>y. y \<noteq> mic) (first_occurrences mics))"
      by (auto intro: filter_cong)
    with IH False show ?thesis unfolding e by simp
  qed
qed

lemma pta_of_count_range:
  assumes "s \<le> nat N" and "N \<noteq> 0"
  shows "0 \<le> pta_of_count N s \<and> pta_of_count N s \<le> 100"
proof (cases "0 < N")
  case True
  then have le: "real s \<le> real_of_int N" using assms(1) by linarith
  have q0: "0 \<le> real s / real_of_int N" using True by simp
  have q1: "real s / real_of_int N \<le> 1" using True le by (simp add: divide_le_eq)
  from flush_nonneg [OF q0] flush_le [OF q0] q1 show ?thesis
    by (simp add: pta_of_count_def)
next
  case False
  with assms(1) have "s = 0" by simp
  then show ?thesis by (simp add: pta_of_count_def)
qed

lemma pta_of_count_exact:
  assumes n: "0 < N" and b: "real_of_int N \<le> 2 ^ 1074"
  shows "pta_of_count N s = 100 * real s / real_of_int N"
proof (cases "s = 0")
  case True
  then show ?thesis by (simp add: pta_of_count_def)
next
  case False
  then have s: "1 \<le> real s" by simp
  have n': "0 < real_of_int N" using n by simp
  have "1 / 2 ^ 1074 \<le> 1 / real_of_int N"
    using b n' by (intro divide_left_mono) auto
  also have "\<dots> \<le> real s / real_of_int N"
    using s n' by (simp add: divide_le_cancel)
  finally have lo: "1 / 2 ^ 1074 \<le> real s / real_of_int N" .
  have "float_underflow < (1::real) / 2 ^ 1074" by (simp add: float_underflow_def)
  with lo have "float_underflow < real s / real_of_int N" by linarith
  moreover have "0 < real s / real_of_int N" using s n' by simp
  ultimately have "flush (real s / real_of_int N) = real s / real_of_int N"
    unfolding flush_def by (simp only: abs_of_pos) simp
  then show ?thesis by (simp add: pta_of_count_def)
qed

lemma pta_range:
  assumes "monte_carlo_simulation g dose_intervals fu_mean fu_std vd_mean vd_std
             clt_mean clt_std mics num_patients target k = (Inr results, k')"
    and "(mic, l) \<in> set results" and "(dose, di, pta) \<in> set l"
  shows "(\<exists>s. s \<le> nat num_patients \<and> pta = pta_of_count num_patients s
             \<and> (real_of_int num_patients \<le> 2 ^ 1074
                  \<longrightarrow> pta = 100 * real s / real_of_int num_patients))
       \<and> 0 \<le> pta \<and> pta \<le> 100"
proof -
  from monte_carlo_simulation_rows(4) [OF assms(1,2)] assms(3)
  obtain s where s: "s \<le> nat num_patients" "num_patients \<noteq> 0" "pta = pta_of_count num_patients s"
    by (fastforce simp add: row_ok_def)
  have ex: "pta = 100 * real s / real_of_int num_patients"
    if "real_of_int num_patients \<le> 2 ^ 1074"
  proof (cases "0 < num_patients")
    case True
    from pta_of_count_exact [OF True that] s(3) show ?thesis by simp
  next
    case False
    with s(1) have "s = 0" by simp
    with s(3) show ?thesis by (simp add: pta_of_count_def)
  qed
  from pta_of_count_range [OF s(1,2)] s ex show ?thesis by blast
qed

lemma simulate_patient_message:
  assumes "\<not> float_negative (fu_sigma p)" "\<not> float_negative (vd_sigma p)"
    "\<not> float_negative (clt_sigma p)"
    and "\<And>x1 x2 x3. \<exists>s. calculate_ft_mic (as_number dose) (py_max0 (Fin x1)) (py_max0 (Fin x2))
                            (as_number mic) (py_max0 (Fin x3)) (as_number di) = Inr (Str s)"
  shows "simulate_patient (finite_rng g) p dose di mic target k = (Inl TypeError, k + 3)"
proof -
  have "meets_target (as_number dose) (py_max0 (Fin x1)) (py_max0 (Fin x2))
          (as_number mic) (py_max0 (Fin x3)) (as_number di) target = Inl TypeError" for x1 x2 x3
    using assms(4) [of x1 x2 x3] by (auto simp add: meets_target_def)
  with assms(1-3) show ?thesis
    by (simp add: simulate_patient_def np_random_lognormal_def finite_rng_def)
qed

lemma engine_aborts_on_message:
  assumes f: "calculate_lognormal_params (Fin fu_mean) (Fin fu_std) = Inr (fm, fs)"
    and v: "calculate_lognormal_params (Fin vd_mean) (Fin vd_std) = Inr (vm, vs)"
    and c: "calculate_lognormal_params (Fin clt_mean) (Fin clt_std) = Inr (cm, cs)"
    and n: "0 < N"
    and m: "\<And>x1 x2 x3. \<exists>s. calculate_ft_mic (as_number dose) (py_max0 (Fin x1)) (py_max0 (Fin x2))
                            (as_number mic) (py_max0 (Fin x3)) (as_number di) = Inr (Str s)"
  shows "monte_carlo_simulation (finite_rng g) ((dose, di) # dis) fu_mean fu_std vd_mean vd_std
           clt_mean clt_std (mic # mics) N target k = (Inl TypeError, k + 3)"
proof -
  let ?p = "\<lparr>fu_mu = fm, fu_sigma = fs, vd_mu = vm, vd_sigma = vs, clt_mu = cm, clt_sigma = cs\<rparr>"
  have sp: "simulate_patient (finite_rng g) ?p dose di mic target k = (Inl TypeError, k + 3)"
    using lognormal_params_sigma_nonneg [OF f] lognormal_params_sigma_nonneg [OF v]
      lognormal_params_sigma_nonneg [OF c] m
    by (intro simulate_patient_message) simp_all
  have n': "0 < nat N" using n by simp
  have "patient_loop (finite_rng g) ?p dose di mic target (nat N) 0 k = (Inl TypeError, k + 3)"
    by (simp add: patient_loop_pos [OF n'] sp)
  then show ?thesis
    by (simp add: monte_carlo_simulation_def f v c)
qed

lemma as_number_small: "\<bar>x\<bar> < float_overflow \<Longrightarrow> as_number x = PFloat (Fin x)"
  by (simp add: as_number_def)

lemma as_number_0 [simp]: "as_number 0 = PFloat (Fin 0)"
  using float_overflow_pos by (simp add: as_number_def)

lemma py_max0_Fin_cases: "py_max0 (Fin x) = PInt 0 \<or> (py_max0 (Fin x) = PFloat (Fin x) \<and> 0 \<le> x)"
  by simp

lemma fdiv_zero_numerator: "b \<noteq> Fin 0 \<Longrightarrow> b \<noteq> NaN \<Longrightarrow> fdiv (Fin 0) b = Fin 0"
  by (cases b) simp_all

lemma float_overflow_not_le_0 [simp]: "\<not> float_overflow \<le> 0"
  using float_overflow_pos by simp

lemma py_mul_zero_clamped: "py_mul (PFloat (Fin 0)) (py_max0 (Fin x)) = Inr (PFloat (Fin 0))"
  by (cases "x < 0") simp_all

lemma py_mul_clamped_zero: "py_mul (py_max0 (Fin x)) (PFloat (Fin 0)) = Inr (PFloat (Fin 0))"
  by (cases "x < 0") simp_all

lemma py_mul_clamped_float:
  "\<exists>d. py_mul (py_max0 (Fin x)) (PFloat (Fin m)) = Inr (PFloat d) \<and> d \<noteq> NaN"
  by (cases "x < 0") simp_all

lemma py_mul_float_clamped:
  "\<exists>d. py_mul (PFloat (Fin m)) (py_max0 (Fin x)) = Inr (PFloat d)"
  by (cases "x < 0") simp_all

lemma ft_mic_try_zero_numerator:
  assumes "py_mul dose fu = Inr (PFloat (Fin 0))" and "py_mul vd mic = Inr (PFloat d)"
    and "d \<noteq> NaN"
  shows "ft_mic_try dose fu vd mic clt di = Inl ZeroDivisionError
       \<or> ft_mic_try dose fu vd mic clt di = Inl ValueError"
proof (cases "d = Fin 0")
  case True
  then show ?thesis by (simp add: ft_mic_try_def assms(1,2) float_div_def)
next
  case False
  have "fdiv (Fin 0) d = Fin 0" by (rule fdiv_zero_numerator [OF False assms(3)])
  with False show ?thesis by (simp add: ft_mic_try_def assms(1,2) float_div_def)
qed

lemma ft_mic_try_zero_denominator:
  assumes "py_mul dose fu = Inr (PFloat n)" and "py_mul vd mic = Inr (PFloat (Fin 0))"
  shows "ft_mic_try dose fu vd mic clt di = Inl ZeroDivisionError"
  by (simp add: ft_mic_try_def assms float_div_def)

lemma calculate_ft_mic_caught:
  assumes "ft_mic_try dose fu vd mic clt di = Inl ZeroDivisionError
         \<or> ft_mic_try dose fu vd mic clt di = Inl ValueError"
  shows "calculate_ft_mic dose fu vd mic clt di
           = Inr (Str ''Invalid parameters. Please check your inputs.'')"
  using assms by (auto simp add: calculate_ft_mic_def)

lemma message_dose0:
  assumes "\<bar>mic\<bar> < float_overflow"
  shows "calculate_ft_mic (as_number 0) (py_max0 (Fin x1)) (py_max0 (Fin x2)) (as_number mic)
           (py_max0 (Fin x3)) di = Inr (Str ''Invalid parameters. Please check your inputs.'')"
proof -
  obtain d where d: "py_mul (py_max0 (Fin x2)) (PFloat (Fin mic)) = Inr (PFloat d)" "d \<noteq> NaN"
    using py_mul_clamped_float by blast
  show ?thesis
    unfolding as_number_0 as_number_small [OF assms]
    by (rule calculate_ft_mic_caught) (rule ft_mic_try_zero_numerator [OF py_mul_zero_clamped d])
qed

lemma message_mic0:
  assumes "\<bar>dose\<bar> < float_overflow"
  shows "calculate_ft_mic (as_number dose) (py_max0 (Fin x1)) (py_max0 (Fin x2)) (as_number 0)
           (py_max0 (Fin x3)) di = Inr (Str ''Invalid parameters. Please check your inputs.'')"
proof -
  obtain n where n: "py_mul (PFloat (Fin dose)) (py_max0 (Fin x1)) = Inr (PFloat n)"
    using py_mul_float_clamped by blast
  show ?thesis
    unfolding as_number_0 as_number_small [OF assms]
    by (rule calculate_ft_mic_caught)
       (rule disjI1, rule ft_mic_try_zero_denominator [OF n py_mul_clamped_zero])
qed

lemma default_fu: "\<exists>mu sigma. calculate_lognormal_params (Fin 0.073) (Fin 0.032) = Inr (mu, sigma)"
proof -
  have q: "in_float_range ((0.073::real) ^ 2 / sqrt (0.032 ^ 2 + 0.073 ^ 2))"
    by (rule quotient_in_range) (simp_all add: float_underflow_def float_overflow_def power2_eq_square)
  have "calculate_lognormal_params (Fin 0.073) (Fin 0.032) =
           Inr (Fin (ln (0.073 ^ 2 / sqrt (0.032 ^ 2 + 0.073 ^ 2))),
                Fin (sqrt (ln (1 + 0.032 ^ 2 / 0.073 ^ 2))))"
    using q
    by (intro lognormal_params_in_range)
       (simp_all add: in_float_range_def float_underflow_def float_overflow_def power2_eq_square)
  then show ?thesis by blast
qed

lemma default_vd: "\<exists>mu sigma. calculate_lognormal_params (Fin 7.8) (Fin 5.4) = Inr (mu, sigma)"
proof -
  have q: "in_float_range ((7.8::real) ^ 2 / sqrt (5.4 ^ 2 + 7.8 ^ 2))"
    by (rule quotient_in_range) (simp_all add: float_underflow_def float_overflow_def power2_eq_square)
  have "calculate_lognormal_params (Fin 7.8) (Fin 5.4) =
           Inr (Fin (ln (7.8 ^ 2 / sqrt (5.4 ^ 2 + 7.8 ^ 2))),
                Fin (sqrt (ln (1 + 5.4 ^ 2 / 7.8 ^ 2))))"
    using q
    by (intro lognormal_params_in_range)
       (simp_all add: in_float_range_def float_underflow_def float_overflow_def power2_eq_square)
  then show ?thesis by blast
qed

lemma default_clt: "\<exists>mu sigma. calculate_lognormal_params (Fin 0.83) (Fin 0.83) = Inr (mu, sigma)"
proof -
  have q: "in_float_range ((0.83::real) ^ 2 / sqrt (0.83 ^ 2 + 0.83 ^ 2))"
    by (rule quotient_in_range) (simp_all add: float_underflow_def float_overflow_def power2_eq_square)
  have "calculate_lognormal_params (Fin 0.83) (Fin 0.83) =
           Inr (Fin (ln (0.83 ^ 2 / sqrt (0.83 ^ 2 + 0.83 ^ 2))),
                Fin (sqrt (ln (1 + 0.83 ^ 2 / 0.83 ^ 2))))"
    using q
    by (intro lognormal_params_in_range)
       (simp_all add: in_float_range_def float_underflow_def float_overflow_def power2_eq_square)
  then show ?thesis by blast
qed

lemma fl_1 [simp]: "fl 1 = Fin 1"
  by (rule fl_in_range) simp

lemma fl_100 [simp]: "fl 100 = Fin 100"
  by (rule fl_in_range) simp

lemma flush_1 [simp]: "flush 1 = 1"
  by (rule flush_in_range) simp

lemma as_number_1 [simp]: "as_number 1 = PFloat (Fin 1)"
  using float_overflow_gt_100 by (simp add: as_number_def)

lemma in_float_range_exp_1: "in_float_range (exp 1)"
proof (rule in_float_range_posI)
  show "0 < exp (1::real)" by simp
  have "1 \<le> exp (1::real)" by simp
  with float_underflow_less_1 show "float_underflow < exp (1::real)" by linarith
  have "exp (1::real) \<le> 3" by (rule exp_le)
  with float_overflow_gt_100 show "exp (1::real) < float_overflow" by linarith
qed

lemma in_float_range_inverse_exp_1: "in_float_range (1 / exp 1)"
proof (rule in_float_range_posI)
  show "0 < 1 / exp (1::real)" by simp
  have "exp (1::real) \<le> 3" by (rule exp_le)
  then have "1 / 3 \<le> 1 / exp (1::real)" by (intro divide_left_mono) simp_all
  moreover have "float_underflow < (1::real) / 3" by (simp add: float_underflow_def)
  ultimately show "float_underflow < 1 / exp (1::real)" by linarith
  have "1 / exp (1::real) \<le> 1" by simp
  with float_overflow_gt_100 show "1 / exp (1::real) < float_overflow" by linarith
qed

lemma fl_exp_1 [simp]: "fl (exp 1) = Fin (exp 1)"
  by (rule fl_in_range [OF in_float_range_exp_1])

lemma fl_inverse_exp_1: "fl (1 / exp 1) = Fin (1 / exp 1)"
  by (rule fl_in_range [OF in_float_range_inverse_exp_1])

lemma as_number_exp_1 [simp]: "as_number (exp 1) = PFloat (Fin (exp 1))"
  using in_float_range_exp_1 by (simp add: as_number_def in_float_range_def)

lemma lognormal_params_1: "calculate_lognormal_params (Fin 1) (Fin 0) = Inr (Fin 0, Fin 0)"
  using lognormal_params_std0 [of 1] by simp


lemma median_draw [simp]: "median_rng k (Fin 0) sigma = Fin 1"
  by (simp add: median_rng_def)

lemmas run_simps =
  monte_carlo_simulation_def lognormal_params_1 simulate_patient_def np_random_lognormal_def
  meets_target_def calculate_ft_mic_def ft_mic_try_def float_div_def results_append_def
  dict_getitem_def pta_line_def




lemma as_number_m1 [simp]: "as_number (- 1) = PFloat (Fin (- 1))"
  using float_overflow_gt_100 by (simp add: as_number_def)

lemma fl_m100 [simp]: "fl (- 100) = Fin (- 100)"
  by (rule fl_in_range) (simp add: in_float_range_def float_overflow_def float_underflow_def)

lemma fl_m1 [simp]: "fl (- 1) = Fin (- 1)"
  by (rule fl_in_range) (simp add: in_float_range_def float_overflow_def float_underflow_def)



lemma run2:
  "monte_carlo_simulation median_rng [(exp 1, 1), (1, 1)] 1 0 1 0 1 0 [1, exp 1] 1 55 0
     = (Inr [(1, [(exp 1, 1, 100), (1, 1, 0)]), (exp 1, [(exp 1, 1, 0), (1, 1, 0)])], 12)"
  by (simp add: run_simps fl_inverse_exp_1 ln_div)

















lemma int_as_float:
  assumes i: "\<bar>real_of_int i\<bar> < float_overflow" and j: "\<bar>real_of_int j\<bar> < float_overflow"
  shows "calculate_ft_mic (PInt i) (py_max0 a) (py_max0 b) (PFloat m) (py_max0 c) (PInt j)
       = calculate_ft_mic (as_number (real_of_int i)) (py_max0 a) (py_max0 b) (PFloat m)
           (py_max0 c) (as_number (real_of_int j))"
proof -
  obtain d where d: "py_mul (py_max0 b) (PFloat m) = Inr (PFloat d)"
    using py_max0_cases [of b] by auto
  have t3: "py_truediv (PInt 100) (PInt j) = py_truediv (PInt 100) (PFloat (Fin (real_of_int j)))"
  proof (cases "j = 0")
    case True
    then show ?thesis by (simp add: float_div_def)
  next
    case False
    then have "1 \<le> \<bar>real_of_int j\<bar>" by linarith
    then have "\<bar>100 / real_of_int j\<bar> \<le> 100" by (simp add: divide_le_eq)
    with float_overflow_gt_100 have "\<not> float_overflow \<le> \<bar>100 / real_of_int j\<bar>" by linarith
    with False show ?thesis by (simp add: float_div_def fl_def)
  qed
  have ni: "\<not> float_overflow \<le> \<bar>real_of_int i\<bar>" using i by simp
  consider (z) "py_max0 a = PInt 0" | (f) x where "py_max0 a = PFloat x"
    using py_max0_cases [of a] by blast
  then have "ft_mic_try (PInt i) (py_max0 a) (py_max0 b) (PFloat m) (py_max0 c) (PInt j)
           = ft_mic_try (PFloat (Fin (real_of_int i))) (py_max0 a) (py_max0 b) (PFloat m)
               (py_max0 c) (PFloat (Fin (real_of_int j)))"
  proof cases
    case z
    show ?thesis unfolding ft_mic_try_def z d t3 by (simp add: ni)
  next
    case f
    show ?thesis unfolding ft_mic_try_def f d t3 by (simp add: ni)
  qed
  then show ?thesis
    unfolding calculate_ft_mic_def as_number_small [OF i] as_number_small [OF j] by simp
qed








lemma fl_Fin_0_iff: "fl u = Fin 0 \<longleftrightarrow> \<bar>u\<bar> < float_overflow \<and> flush u = 0"
  by (auto simp add: fl_def)






lemma row_score_Nil: "row_score wd r mic [] = 0"
  by (simp add: row_score_def row_attainment_def)

lemma row_score_Cons:
  "row_score wd r mic ((d, i, pta) # xs) =
     (if (d, i) = r then pta * dict_get wd mic 0 else 0) + row_score wd r mic xs"
  by (simp add: row_score_def row_attainment_def regimen_of_def distrib_right)

lemma cfr_step_effect:
  "\<exists>c'. cfr_step wd mic c (d, i, pta) = Inr c'
       \<and> map_of c' = (map_of c)((d, i) \<mapsto> score_so_far c (d, i)
                                    + pta * dict_get wd mic 0)"
  by (cases "map_of c (d, i)")
     (simp_all add: cfr_step_def dict_getitem_def map_of_dict_set score_so_far_def)

lemma cfr_combinations_effect:
  "\<exists>c'. cfr_combinations wd mic xs c = Inr c'
       \<and> (\<forall>r. map_of c' r =
              (if r \<in> regimen_of ` set xs \<or> map_of c r \<noteq> None
               then Some (score_so_far c r + row_score wd r mic xs) else None))"
proof (induction xs arbitrary: c)
  case Nil
  then show ?case by (auto simp add: row_score_Nil score_so_far_def)
next
  case (Cons x xs)
  obtain d i pta where x: "x = (d, i, pta)" by (cases x)
  from cfr_step_effect [of wd mic c d i pta] obtain c1 where
    c1: "cfr_step wd mic c (d, i, pta) = Inr c1"
    and m1: "map_of c1 = (map_of c)((d, i) \<mapsto> score_so_far c (d, i)
                                    + pta * dict_get wd mic 0)"
    by blast
  from Cons.IH [of c1] obtain c' where
    c': "cfr_combinations wd mic xs c1 = Inr c'"
    and m': "\<forall>r. map_of c' r =
              (if r \<in> regimen_of ` set xs \<or> map_of c1 r \<noteq> None
               then Some (score_so_far c1 r + row_score wd r mic xs) else None)"
    by blast
  have run: "cfr_combinations wd mic (x # xs) c = Inr c'"
    using c1 c' x by simp
  have "map_of c' r =
              (if r \<in> regimen_of ` set (x # xs) \<or> map_of c r \<noteq> None
               then Some (score_so_far c r + row_score wd r mic (x # xs)) else None)" for r
  proof (cases "r = (d, i)")
    case True
    have a: "map_of c1 r = Some (score_so_far c r + pta * dict_get wd mic 0)"
      using m1 True by simp
    then have b: "score_so_far c1 r = score_so_far c r + pta * dict_get wd mic 0"
      by (simp add: score_so_far_def)
    have e: "row_score wd r mic (x # xs) = pta * dict_get wd mic 0 + row_score wd r mic xs"
      using True x by (simp add: row_score_Cons)
    have f: "r \<in> regimen_of ` set (x # xs)" using True x by (simp add: regimen_of_def)
    from m' [rule_format, of r] a have "map_of c' r = Some (score_so_far c1 r + row_score wd r mic xs)"
      by simp
    then show ?thesis unfolding b e using f by simp
  next
    case False
    have a: "map_of c1 r = map_of c r" using m1 False by simp
    then have b: "score_so_far c1 r = score_so_far c r" by (simp add: score_so_far_def)
    have e: "row_score wd r mic (x # xs) = row_score wd r mic xs"
      using False x by (simp add: row_score_Cons)
    have f: "r \<in> regimen_of ` set (x # xs) \<longleftrightarrow> r \<in> regimen_of ` set xs"
      using False x by (auto simp add: regimen_of_def)
    show ?thesis unfolding e f using m' [rule_format, of r] by (simp only: a b)
  qed
  with run show ?case by blast
qed

lemma cfr_items_effect:
  "\<exists>c'. cfr_items wd results c = Inr c'
       \<and> (\<forall>r. map_of c' r =
              (if r \<in> regimens_in results \<or> map_of c r \<noteq> None
               then Some (score_so_far c r + response_score wd results r) else None))"
proof (induction results arbitrary: c)
  case Nil
  then show ?case by (auto simp add: regimens_in_def response_score_def row_score_def score_so_far_def)
next
  case (Cons x results)
  obtain mic combos where x: "x = (mic, combos)" by (cases x)
  from cfr_combinations_effect [of wd mic combos c] obtain c1 where
    c1: "cfr_combinations wd mic combos c = Inr c1"
    and m1: "\<forall>r. map_of c1 r =
              (if r \<in> regimen_of ` set combos \<or> map_of c r \<noteq> None
               then Some (score_so_far c r + row_score wd r mic combos) else None)"
    by blast
  from Cons.IH [of c1] obtain c' where
    c': "cfr_items wd results c1 = Inr c'"
    and m': "\<forall>r. map_of c' r =
              (if r \<in> regimens_in results \<or> map_of c1 r \<noteq> None
               then Some (score_so_far c1 r + response_score wd results r) else None)"
    by blast
  have run: "cfr_items wd (x # results) c = Inr c'"
    using c1 c' x by simp
  have none: "row_score wd r mic combos = 0" if "r \<notin> regimen_of ` set combos" for r
  proof -
    from that have "\<forall>t \<in> set combos. regimen_of t \<noteq> r" by auto
    then have "row_attainment combos r = 0"
      unfolding row_attainment_def by (induction combos) auto
    then show ?thesis by (simp add: row_score_def)
  qed
  have "map_of c' r =
              (if r \<in> regimens_in (x # results) \<or> map_of c r \<noteq> None
               then Some (score_so_far c r + response_score wd (x # results) r) else None)" for r
  proof -
    have ws: "response_score wd (x # results) r = row_score wd r mic combos + response_score wd results r"
      using x by (simp add: response_score_def row_score_def)
    have ri: "r \<in> regimens_in (x # results) \<longleftrightarrow> r \<in> regimen_of ` set combos \<or> r \<in> regimens_in results"
      using x by (simp add: regimens_in_def)
    show ?thesis
    proof (cases "r \<in> regimen_of ` set combos \<or> map_of c r \<noteq> None")
      case True
      with m1 [rule_format, of r] have a: "map_of c1 r = Some (score_so_far c r + row_score wd r mic combos)" by simp
      then have b: "score_so_far c1 r = score_so_far c r + row_score wd r mic combos"
        by (simp add: score_so_far_def)
      from m' [rule_format, of r] a have "map_of c' r = Some (score_so_far c1 r + response_score wd results r)"
        by simp
      then show ?thesis unfolding b ws ri using True by auto
    next
      case False
      with m1 [rule_format, of r] have a: "map_of c1 r = None" by simp
      then have b: "score_so_far c1 r = 0" by (simp add: score_so_far_def)
      from False have c0: "score_so_far c r = 0" by (simp add: score_so_far_def)
      from False have n0: "row_score wd r mic combos = 0" by (simp add: none)
      show ?thesis unfolding ws ri using m' [rule_format, of r] a b c0 n0 False by simp
    qed
  qed
  with run show ?case by blast
qed

lemma calculate_cfr_lookup:
  "\<exists>c. calculate_cfr results wd = Inr c
       \<and> (\<forall>r. map_of c r =
              (if r \<in> regimens_in results then Some (response_score wd results r) else None))"
proof -
  have "score_so_far [] r = 0" for r by (simp add: score_so_far_def)
  with cfr_items_effect [of wd results "[]"] show ?thesis
    by (auto simp add: calculate_cfr_def)
qed

lemma row_attainment_single:
  assumes "filter (\<lambda>t. regimen_of t = r) combos = [(d, i, p)]"
  shows "row_attainment combos r = p"
proof -
  have "row_attainment combos r = (\<Sum>t \<leftarrow> filter (\<lambda>t. regimen_of t = r) combos. snd (snd t))"
    unfolding row_attainment_def by (induction combos) auto
  with assms show ?thesis by simp
qed

lemma sum_list_single_key:
  assumes "distinct (map fst rs)" and "(t0, v) \<in> set rs"
    and "\<And>t c. (t, c) \<in> set rs \<Longrightarrow> t \<noteq> t0 \<Longrightarrow> f t c = 0"
  shows "(\<Sum>(t, c) \<leftarrow> rs. f t c) = f t0 v"
  using assms
proof (induction rs)
  case Nil
  then show ?case by simp
next
  case (Cons x rs)
  obtain t c where x: "x = (t, c)" by (cases x)
  show ?case
  proof (cases "t = t0")
    case True
    with Cons.prems(1,2) x have v: "c = v" by (auto simp add: image_iff)
    have "(t', c') \<in> set rs \<Longrightarrow> f t' c' = 0" for t' c'
    proof -
      assume m: "(t', c') \<in> set rs"
      with Cons.prems(1) x True have "t' \<noteq> t0" by (auto simp add: image_iff)
      with Cons.prems(3) [of t' c'] m show "f t' c' = 0" by simp
    qed
    then have "(\<Sum>(t, c) \<leftarrow> rs. f t c) = 0"
      by (induction rs) auto
    with x True v show ?thesis by simp
  next
    case False
    with Cons.prems(2) x have m: "(t0, v) \<in> set rs" by simp
    from Cons.prems(1) have d: "distinct (map fst rs)" by simp
    have "(\<Sum>(t, c) \<leftarrow> rs. f t c) = f t0 v"
      using Cons.IH [OF d m] Cons.prems(3) by simp
    moreover have "f t c = 0" using Cons.prems(3) [of t c] x False by simp
    ultimately show ?thesis using x by simp
  qed
qed


section \<open>The claims\<close>

subsection \<open>The exposure model\<close>




text \<open>
  C9, as claimed: for all numeric inputs the function returns a non-negative number or
  the message string, and no exception escapes it. Both parts fail. An int argument
  beyond the range of the floats makes the true division of line 14 raise
  OverflowError, which the \<^verbatim>\<open>except\<close> clause does not catch. And with the finite floats
  \<open>2 ^ 1023\<close>, 1, \<open>2 ^ 1023\<close>, 1, \<open>2 ^ -1022\<close> and the interval 1 the logarithm is 0,
  \<open>vd / clt\<close> overflows to infinity, and their product, NaN, is returned.
\<close>

theorem exposure_model_not_total:
  "calculate_ft_mic (PInt (10 ^ 309)) (PInt 1) (PInt 1) (PInt 1) (PInt 1) (PInt 1)
     = Inl OverflowError
   \<and> calculate_ft_mic (PFloat (Fin (2 ^ 1023))) (PFloat (Fin 1)) (PFloat (Fin (2 ^ 1023)))
       (PFloat (Fin 1)) (PFloat (Fin (1 / 2 ^ 1022))) (PInt 1)
     = Inr (Num (PFloat NaN))"
  using overflow_error_example nan_example by simp

text \<open>
  C9, amended. For all arguments, ints or floats, \<^verbatim>\<open>calculate_ft_mic\<close> returns a number
  (a finite float that is not negative, the int 0, the float infinity or NaN), or
  returns the string "Invalid parameters. Please check your inputs.", or raises
  OverflowError. The ValueError of the logarithm and the ZeroDivisionError of the three
  divisions are caught inside the function. When all six arguments are floats, no
  exception leaves the function.
\<close>

theorem calculate_ft_mic_total:
  "((\<exists>r. calculate_ft_mic dose fu vd mic clt di = Inr (Num (PFloat (Fin r))) \<and> 0 \<le> r)
    \<or> calculate_ft_mic dose fu vd mic clt di = Inr (Num (PInt 0))
    \<or> calculate_ft_mic dose fu vd mic clt di = Inr (Num (PFloat PInf))
    \<or> calculate_ft_mic dose fu vd mic clt di = Inr (Num (PFloat NaN))
    \<or> calculate_ft_mic dose fu vd mic clt di
         = Inr (Str ''Invalid parameters. Please check your inputs.'')
    \<or> calculate_ft_mic dose fu vd mic clt di = Inl OverflowError)
   \<and> (\<forall>err. calculate_ft_mic (PFloat a) (PFloat b) (PFloat c) (PFloat d) (PFloat e) (PFloat f)
               \<noteq> Inl err)"
  using calculate_ft_mic_outcomes [of dose fu vd mic clt di]
    calculate_ft_mic_floats_total [of a b c d e f]
  by blast

theorem calculate_ft_mic_total_witness:
  "calculate_ft_mic (PFloat (Fin 4)) (PFloat (Fin 1)) (PFloat (Fin (1 / 4)))
         (PFloat (Fin (1 / 2 ^ 1074))) (PFloat (Fin 1)) (PFloat (Fin 1))
     \<noteq> Inl OverflowError"
  using calculate_ft_mic_total
          [of "PFloat (Fin 4)" "PFloat (Fin 1)" "PFloat (Fin (1 / 4))"
              "PFloat (Fin (1 / 2 ^ 1074))" "PFloat (Fin 1)" "PFloat (Fin 1)"
              "Fin 4" "Fin 1" "Fin (1 / 4)" "Fin (1 / 2 ^ 1074)" "Fin 1" "Fin 1"]
  by blast




subsection \<open>The lognormal parameter converter\<close>




subsection \<open>The Monte Carlo engine\<close>

text \<open>
  C10. Whenever \<^verbatim>\<open>monte_carlo_simulation\<close> completes, the keys of its result are the
  input thresholds, each once, in the order of their first occurrence in the input
  (so exactly the input list when the thresholds are distinct), and the list of every
  threshold holds one \<open>(dose, di, pta)\<close> triple per input regimen, in the order of the
  regimen list.
\<close>

theorem monte_carlo_simulation_shape:
  assumes "monte_carlo_simulation g dose_intervals fu_mean fu_std vd_mean vd_std
             clt_mean clt_std mics num_patients target k = (Inr results, k')"
  shows "map fst results = first_occurrences mics
       \<and> set (map fst results) = set mics
       \<and> distinct (map fst results)
       \<and> (distinct mics \<longrightarrow> map fst results = mics)
       \<and> (\<forall>(mic, l) \<in> set results. map (\<lambda>(dose, di, pta). (dose, di)) l = dose_intervals)"
proof -
  note r = monte_carlo_simulation_rows [OF assms]
  from assms obtain p where
    ml: "mic_loop g p num_patients target dose_intervals mics [] k = (Inr results, k')"
    by (rule monte_carlo_simulation_Inr)
  from mic_loop_keys [OF ml] have keys: "map fst results = first_occurrences mics"
    by simp
  have "map (\<lambda>(dose, di, pta). (dose, di)) l = dose_intervals"
    if "(mic, l) \<in> set results" for mic l
  proof -
    have "regimen_of = (\<lambda>(dose, di, pta). (dose, di))"
      by (simp add: fun_eq_iff regimen_of_def)
    with r(4) [OF that] show ?thesis by (simp add: row_ok_def)
  qed
  with keys r(1,2,3) show ?thesis by blast
qed

theorem monte_carlo_simulation_shape_witness:
  "monte_carlo_simulation median_rng [(exp 1, 1), (1, 1)] 1 0 1 0 1 0 [1, exp 1] 1 55 0
     = (Inr [(1, [(exp 1, 1, 100), (1, 1, 0)]), (exp 1, [(exp 1, 1, 0), (1, 1, 0)])], 12)
   \<and> map fst [(1 :: real, [(exp 1, 1, 100), (1, 1, 0 :: real)]),
              (exp 1, [(exp 1 :: real, 1 :: real, 0), (1, 1, 0)])] = [1, exp 1]
   \<and> map (\<lambda>(dose, di, pta). (dose, di)) [(exp 1 :: real, 1 :: real, 100 :: real), (1, 1, 0)]
       = [(exp 1, 1), (1, 1)]"
  using monte_carlo_simulation_shape [OF run2] run2 by simp

text \<open>
  C2. The specification asks that a patient draw whose exposure computation fails
  (logarithm argument not positive, clearance 0, volume 0) counts as "target not met"
  and never aborts the run. The code does not do this: \<^verbatim>\<open>calculate_ft_mic\<close> returns
  its message string for such a draw, line 43 compares the string with the numeric
  target, and the TypeError of that comparison leaves \<^verbatim>\<open>monte_carlo_simulation\<close>.
  With dose 0 (logarithm argument 0) and the default population parameters, whatever
  finite values the random stream draws, the run ends at its first patient, after three
  draws.
\<close>

theorem domain_error_aborts_run:
  "\<forall>g. monte_carlo_simulation (finite_rng g) [(0, 24)] 0.073 0.032 7.8 5.4 0.83 0.83 [1] 5000 55 0
     = (Inl TypeError, 3)"
proof
  fix g
  obtain fm fs where f: "calculate_lognormal_params (Fin 0.073) (Fin 0.032) = Inr (fm, fs)"
    using default_fu by blast
  obtain vm vs where v: "calculate_lognormal_params (Fin 7.8) (Fin 5.4) = Inr (vm, vs)"
    using default_vd by blast
  obtain cm cs where c: "calculate_lognormal_params (Fin 0.83) (Fin 0.83) = Inr (cm, cs)"
    using default_clt by blast
  have m: "\<bar>1::real\<bar> < float_overflow" using float_overflow_gt_100 by simp
  have "monte_carlo_simulation (finite_rng g) ((0, 24) # []) 0.073 0.032 7.8 5.4 0.83 0.83
          (1 # []) 5000 55 0 = (Inl TypeError, 0 + 3)"
    using message_dose0 [OF m]
    by (intro engine_aborts_on_message [OF f v c]) auto
  then show "monte_carlo_simulation (finite_rng g) [(0, 24)] 0.073 0.032 7.8 5.4 0.83 0.83
               [1] 5000 55 0 = (Inl TypeError, 3)" by simp
qed

text \<open>
  C4. When a run completes, every reported value is the float of
  \<open>100 * s / num_patients\<close> for a success count \<open>s \<le> num_patients\<close> and lies between 0
  and 100 (lemma \<open>pta_range\<close>; lemma \<open>patient_loop_counts\<close> says which patients the
  count counts). The claim's last part fails on the code: an input on which every
  patient draw hits a domain error does not yield 0, it aborts the run with a TypeError.
  Here the threshold is 0, so that the logarithm argument divides by zero for every
  finite draw.
\<close>

theorem domain_error_yields_no_value:
  "\<forall>g. monte_carlo_simulation (finite_rng g) [(2000, 24)] 0.073 0.032 7.8 5.4 0.83 0.83 [0] 5000 55 0
     = (Inl TypeError, 3)"
proof
  fix g
  obtain fm fs where f: "calculate_lognormal_params (Fin 0.073) (Fin 0.032) = Inr (fm, fs)"
    using default_fu by blast
  obtain vm vs where v: "calculate_lognormal_params (Fin 7.8) (Fin 5.4) = Inr (vm, vs)"
    using default_vd by blast
  obtain cm cs where c: "calculate_lognormal_params (Fin 0.83) (Fin 0.83) = Inr (cm, cs)"
    using default_clt by blast
  have m: "\<bar>2000::real\<bar> < float_overflow" by (simp add: float_overflow_def)
  have "monte_carlo_simulation (finite_rng g) ((2000, 24) # []) 0.073 0.032 7.8 5.4 0.83 0.83
          (0 # []) 5000 55 0 = (Inl TypeError, 0 + 3)"
    using message_mic0 [OF m]
    by (intro engine_aborts_on_message [OF f v c]) auto
  then show "monte_carlo_simulation (finite_rng g) [(2000, 24)] 0.073 0.032 7.8 5.4 0.83 0.83
               [0] 5000 55 0 = (Inl TypeError, 3)" by simp
qed




subsection \<open>The response aggregator\<close>



text \<open>
  C7. Aggregation identity. Let the attainment result be a dict (distinct keys) in
  which threshold \<open>t0\<close> records exactly one triple for the regimen \<open>(dose, di)\<close>, with
  attainment \<open>p\<close>. If the distribution gives \<open>t0\<close> the weight 1 and every other
  threshold of the attainment result the weight 0 (by an entry 0 or by no entry), the
  score of the regimen is \<open>p\<close>.
\<close>

theorem calculate_cfr_point_mass:
  assumes "distinct (map fst results)"
    and "map_of results t0 = Some combos"
    and "filter (\<lambda>t. regimen_of t = (dose, di)) combos = [(dose, di, p)]"
    and "wd t0 = Some 1"
    and "\<forall>t \<in> set (map fst results). t \<noteq> t0 \<longrightarrow> dict_get wd t 0 = 0"
  shows "\<exists>c. calculate_cfr results wd = Inr c \<and> map_of c (dose, di) = Some p"
proof -
  from assms(2) have m: "(t0, combos) \<in> set results" by (rule map_of_SomeD)
  have "(dose, di, p) \<in> set (filter (\<lambda>t. regimen_of t = (dose, di)) combos)"
    unfolding assms(3) by simp
  then have "(dose, di, p) \<in> set combos" by simp
  then have "regimen_of (dose, di, p) \<in> regimen_of ` set combos" by (rule imageI)
  then have "(dose, di) \<in> regimen_of ` set combos" by (simp add: regimen_of_def)
  with m have present: "(dose, di) \<in> regimens_in results"
    unfolding regimens_in_def by blast
  have z: "row_attainment c (dose, di) * dict_get wd t 0 = 0"
    if "(t, c) \<in> set results" "t \<noteq> t0" for t c
  proof -
    from that(1) have "t \<in> set (map fst results)" by force
    with assms(5) that(2) have "dict_get wd t 0 = 0" by blast
    then show ?thesis by simp
  qed
  have "response_score wd results (dose, di)
          = row_attainment combos (dose, di) * dict_get wd t0 0"
    unfolding response_score_def
    using sum_list_single_key
            [OF assms(1) m, of "\<lambda>t c. row_attainment c (dose, di) * dict_get wd t 0"] z
    by blast
  also have "\<dots> = p"
    using row_attainment_single [OF assms(3)] assms(4) by (simp add: dict_get_def)
  finally have "response_score wd results (dose, di) = p" .
  with calculate_cfr_lookup [of results wd] present show ?thesis by auto
qed

theorem calculate_cfr_point_mass_witness:
  "\<exists>c. calculate_cfr [(1, [(2000, 24, 50)]), (2, [(2000, 24, 20)])] [1 \<mapsto> 0, 2 \<mapsto> 1] = Inr c
       \<and> map_of c (2000, 24) = Some 20"
  using calculate_cfr_point_mass
          [of "[(1, [(2000, 24, 50)]), (2, [(2000, 24, 20)])]" 2 "[(2000, 24, 20)]" 2000 24 20
              "[1 \<mapsto> 0, 2 \<mapsto> 1]"]
  by (simp add: regimen_of_def dict_get_def)

end
